theory Spec2Isabelle
  imports Complex_Main
begin

section \<open>Constants of vwap-calculator/main.go\<close>

text \<open>
  The development follows \<^verbatim>\<open>src/vwap-calculator/main.go\<close>, the implementation
  that accumulates exact rationals (\<^verbatim>\<open>math/big.Rat\<close>, here \<^typ>\<open>rat\<close>).
  Go's \<^verbatim>\<open>int\<close> is modelled by \<^typ>\<open>int\<close>: under the shape invariant of the
  ring buffer every intermediate value lies between 0 and 4 * windowSize, far from the
  64-bit range, so no wrap-around is reachable.
  The mutex of the calculator is not modelled: every operation is one atomic step.
\<close>

definition windowSize :: int where
  "windowSize = 200"

definition maxRetries :: int where
  "maxRetries = 5"

text \<open>Run-time panics of Go that the modelled code could raise.\<close>

datatype panic = IndexOutOfRange | NilDereference | DivisionByZero

text \<open>Go's remainder \<^verbatim>\<open>a % b\<close> truncates towards zero: the result has the sign of \<open>a\<close>.\<close>

definition go_rem :: "int \<Rightarrow> int \<Rightarrow> int" where
  "go_rem a b = sgn a * (\<bar>a\<bar> mod \<bar>b\<bar>)"

section \<open>RingBuffer\<close>

text \<open>
  \<^verbatim>\<open>type RingBuffer struct { data [windowSize * 2]big.Rat; start int; count int }\<close>
  The array is a list; its length is fixed by the Go type and is part of the
  invariant \<open>rb_ok\<close> below.
\<close>

record RingBuffer =
  data :: "rat list"
  start :: int
  count :: int

definition in_bounds :: "rat list \<Rightarrow> int \<Rightarrow> bool" where
  "in_bounds xs i \<longleftrightarrow> 0 \<le> i \<and> i < int (length xs)"

text \<open>
  \<^verbatim>\<open>func (rb *RingBuffer) Add(price, size *big.Rat) (oldPrice, oldSize *big.Rat, removed bool)\<close>
  The named results start as \<^verbatim>\<open>nil, nil, false\<close>; a pointer result is an option.
  Every array access is checked: an index outside the array is the panic
  \<open>IndexOutOfRange\<close>, after which no state is observable.
\<close>

definition Add ::
  "RingBuffer \<Rightarrow> rat \<Rightarrow> rat \<Rightarrow> panic + ((rat option \<times> rat option \<times> bool) \<times> RingBuffer)" where
  "Add rb price sz =
     (case (if count rb = windowSize
            then (if in_bounds (data rb) (start rb) \<and> in_bounds (data rb) (start rb + 1)
                  then Inr ((Some (data rb ! nat (start rb)),
                             Some (data rb ! nat (start rb + 1)), True),
                            rb\<lparr>start := go_rem (start rb + 2) (int (length (data rb)))\<rparr>)
                  else Inl IndexOutOfRange)
            else Inr ((None, None, False), rb\<lparr>count := count rb + 1\<rparr>))
      of Inl p \<Rightarrow> Inl p
       | Inr (res, rb1) \<Rightarrow>
           (let pos = go_rem (start rb1 + (count rb1 - 1) * 2) (int (length (data rb1)))
            in if in_bounds (data rb1) pos \<and> in_bounds (data rb1) (pos + 1)
               then Inr (res, rb1\<lparr>data := (data rb1)[nat pos := price, nat (pos + 1) := sz]\<rparr>)
               else Inl IndexOutOfRange))"

text \<open>The zero value of the struct: an array of zero rationals, \<open>start = 0\<close>, \<open>count = 0\<close>.\<close>

definition emptyRingBuffer :: RingBuffer where
  "emptyRingBuffer = \<lparr>data = replicate (nat (windowSize * 2)) 0, start = 0, count = 0\<rparr>"

text \<open>
  The shape invariant: the array has its declared length, \<open>count\<close> is between 0 and
  \<open>windowSize\<close>, \<open>start\<close> is an even index of the array.
\<close>

definition rb_ok :: "RingBuffer \<Rightarrow> bool" where
  "rb_ok rb \<longleftrightarrow>
     length (data rb) = nat (windowSize * 2) \<and>
     0 \<le> count rb \<and> count rb \<le> windowSize \<and>
     even (start rb) \<and> 0 \<le> start rb \<and> start rb < windowSize * 2"

text \<open>
  The pairs a buffer retains, oldest first: slot \<open>i\<close> lives at the array positions
  \<open>(start + 2 * i) mod len\<close> and the next one.
\<close>

definition slot :: "RingBuffer \<Rightarrow> nat \<Rightarrow> rat \<times> rat" where
  "slot rb i =
     (let pos = nat ((start rb + 2 * int i) mod int (length (data rb)))
      in (data rb ! pos, data rb ! (pos + 1)))"

definition contents :: "RingBuffer \<Rightarrow> (rat \<times> rat) list" where
  "contents rb = map (slot rb) [0..<nat (count rb)]"

text \<open>Inserting a list of pairs one after the other, collecting what each call returns.\<close>

fun adds ::
  "RingBuffer \<Rightarrow> (rat \<times> rat) list \<Rightarrow> panic + ((rat option \<times> rat option \<times> bool) list \<times> RingBuffer)" where
  "adds rb [] = Inr ([], rb)"
| "adds rb ((price, sz) # rest) =
     (case Add rb price sz of
        Inl p \<Rightarrow> Inl p
      | Inr (res, rb1) \<Rightarrow>
          (case adds rb1 rest of
             Inl p \<Rightarrow> Inl p
           | Inr (ress, rb2) \<Rightarrow> Inr (res # ress, rb2)))"

section \<open>VWAPCalculator\<close>

text \<open>
  \<^verbatim>\<open>type VWAPCalculator struct { mu sync.Mutex; buffer RingBuffer; totalPV big.Rat; totalVolume big.Rat }\<close>
  \<^verbatim>\<open>NewVWAPCalculator\<close> returns the zero value.
\<close>

record VWAPCalculator =
  buffer :: RingBuffer
  totalPV :: rat
  totalVolume :: rat

definition NewVWAPCalculator :: VWAPCalculator where
  "NewVWAPCalculator = \<lparr>buffer = emptyRingBuffer, totalPV = 0, totalVolume = 0\<rparr>"

text \<open>The one error value \<^verbatim>\<open>Update\<close> returns.\<close>

datatype error = InvalidTradeData

text \<open>
  \<^verbatim>\<open>func (v *VWAPCalculator) Update(priceStr, sizeStr string) error\<close>
  \<^verbatim>\<open>(*big.Rat).SetString\<close> belongs to the Go library; it is the parameter
  \<open>SetString\<close>, \<open>None\<close> where the library reports \<^verbatim>\<open>ok = false\<close>.
  The result is the returned error (\<open>None\<close> for \<^verbatim>\<open>nil\<close>) with the calculator after the
  call, or a panic. Dereferencing \<^verbatim>\<open>oldPrice\<close> or \<^verbatim>\<open>oldSize\<close> when it is \<^verbatim>\<open>nil\<close>
  is the panic \<open>NilDereference\<close>.
\<close>

definition Update ::
  "(string \<Rightarrow> rat option) \<Rightarrow> VWAPCalculator \<Rightarrow> string \<Rightarrow> string
     \<Rightarrow> panic + (error option \<times> VWAPCalculator)" where
  "Update SetString v priceStr sizeStr =
     (case (SetString priceStr, SetString sizeStr) of
        (Some price, Some sz) \<Rightarrow>
          if price \<le> 0 \<or> sz \<le> 0 then Inr (Some InvalidTradeData, v)
          else
            (case Add (buffer v) price sz of
               Inl p \<Rightarrow> Inl p
             | Inr ((oldPrice, oldSize, removed), rb) \<Rightarrow>
                 (case (if removed
                        then (case (oldPrice, oldSize) of
                                (Some op, Some os) \<Rightarrow>
                                  Inr (v\<lparr>buffer := rb,
                                         totalPV := totalPV v - op * os,
                                         totalVolume := totalVolume v - os\<rparr>)
                              | _ \<Rightarrow> Inl NilDereference)
                        else Inr (v\<lparr>buffer := rb\<rparr>))
                  of Inl p \<Rightarrow> Inl p
                   | Inr v1 \<Rightarrow>
                       Inr (None, v1\<lparr>totalPV := totalPV v1 + price * sz,
                                      totalVolume := totalVolume v1 + sz\<rparr>)))
      | _ \<Rightarrow> Inr (Some InvalidTradeData, v))"

text \<open>\<^verbatim>\<open>(*big.Rat).Quo\<close> panics when the divisor is zero.\<close>

definition Quo :: "rat \<Rightarrow> rat \<Rightarrow> panic + rat" where
  "Quo x y = (if y = 0 then Inl DivisionByZero else Inr (x / y))"

text \<open>
  \<^verbatim>\<open>func (v *VWAPCalculator) Calculate() string\<close>
  \<^verbatim>\<open>(*big.Rat).FloatString\<close> belongs to the Go library; it is the parameter
  \<open>FloatString\<close> (the rational, then the number of decimals). The calculator is
  returned with the string, as the method has a pointer receiver.
\<close>

definition Calculate ::
  "(rat \<Rightarrow> nat \<Rightarrow> string) \<Rightarrow> VWAPCalculator \<Rightarrow> panic + (string \<times> VWAPCalculator)" where
  "Calculate FloatString v =
     (if totalVolume v = 0 then Inr (''0'', v)
      else (case Quo (totalPV v) (totalVolume v) of
              Inl p \<Rightarrow> Inl p
            | Inr vwap \<Rightarrow> Inr (FloatString vwap 4, v)))"

text \<open>A client's sequence of calls on one calculator, with what each call returns.\<close>

datatype call = CallUpdate string string | CallCalculate

datatype reply = UpdateReturns "error option" | CalculateReturns string

fun calls ::
  "(string \<Rightarrow> rat option) \<Rightarrow> (rat \<Rightarrow> nat \<Rightarrow> string) \<Rightarrow> VWAPCalculator \<Rightarrow> call list
     \<Rightarrow> panic + (reply list \<times> VWAPCalculator)" where
  "calls SetString FloatString v [] = Inr ([], v)"
| "calls SetString FloatString v (CallUpdate priceStr sizeStr # rest) =
     (case Update SetString v priceStr sizeStr of
        Inl p \<Rightarrow> Inl p
      | Inr (e, v1) \<Rightarrow>
          (case calls SetString FloatString v1 rest of
             Inl p \<Rightarrow> Inl p
           | Inr (rs, v2) \<Rightarrow> Inr (UpdateReturns e # rs, v2)))"
| "calls SetString FloatString v (CallCalculate # rest) =
     (case Calculate FloatString v of
        Inl p \<Rightarrow> Inl p
      | Inr (out, v1) \<Rightarrow>
          (case calls SetString FloatString v1 rest of
             Inl p \<Rightarrow> Inl p
           | Inr (rs, v2) \<Rightarrow> Inr (CalculateReturns out # rs, v2)))"

subsection \<open>What the specification computes\<close>

text \<open>
  The window of a history of pairs: its last \<open>windowSize\<close> elements, in arrival order.
  The sums and the ratio of the specification over a list of (price, size) pairs.
\<close>

definition window :: "(rat \<times> rat) list \<Rightarrow> (rat \<times> rat) list" where
  "window h = drop (length h - nat windowSize) h"

definition sum_pv :: "(rat \<times> rat) list \<Rightarrow> rat" where
  "sum_pv ts = sum_list (map (\<lambda>(price, sz). price * sz) ts)"

definition sum_volume :: "(rat \<times> rat) list \<Rightarrow> rat" where
  "sum_volume ts = sum_list (map snd ts)"

definition spec_vwap :: "(rat \<times> rat) list \<Rightarrow> rat" where
  "spec_vwap ts = sum_pv ts / sum_volume ts"

text \<open>What the \<open>k\<close>-th insert (counted from 0) of a history returns under pure FIFO eviction.\<close>

definition fifo_result :: "(rat \<times> rat) list \<Rightarrow> nat \<Rightarrow> rat option \<times> rat option \<times> bool" where
  "fifo_result h k =
     (if nat windowSize \<le> k
      then (Some (fst (h ! (k - nat windowSize))), Some (snd (h ! (k - nat windowSize))), True)
      else (None, None, False))"

text \<open>The running sums agree with the retained pairs.\<close>

definition sums_ok :: "VWAPCalculator \<Rightarrow> bool" where
  "sums_ok v \<longleftrightarrow>
     totalPV v = sum_pv (contents (buffer v)) \<and>
     totalVolume v = sum_volume (contents (buffer v))"

text \<open>The pairs of the updates that a sequence of calls gets accepted, in order.\<close>

fun accepted :: "(string \<Rightarrow> rat option) \<Rightarrow> call list \<Rightarrow> (rat \<times> rat) list" where
  "accepted SetString [] = []"
| "accepted SetString (CallUpdate priceStr sizeStr # rest) =
     (case (SetString priceStr, SetString sizeStr) of
        (Some price, Some sz) \<Rightarrow>
          if 0 < price \<and> 0 < sz then (price, sz) # accepted SetString rest
          else accepted SetString rest
      | _ \<Rightarrow> accepted SetString rest)"
| "accepted SetString (CallCalculate # rest) = accepted SetString rest"

section \<open>Decoding a frame\<close>

text \<open>
  \<^verbatim>\<open>type Trade struct { Type string `json:"type"`; ProductID string `json:"product_id"`;
  Price string `json:"price"`; Size string `json:"size"` }\<close>
\<close>

record Trade =
  Type :: string
  ProductID :: string
  Price :: string
  Size :: string

definition zeroTrade :: Trade where
  "zeroTrade = \<lparr>Type = [], ProductID = [], Price = [], Size = []\<rparr>"

text \<open>
  A frame is a byte string; \<^verbatim>\<open>json.Unmarshal\<close> of the Go library first checks that
  it is JSON and then stores it into the struct. The frame is modelled by the JSON
  value its bytes denote, \<open>None\<close> when they are not JSON. A number keeps its literal.
\<close>

datatype json =
  JNull | JBool bool | JNumber string | JString string
  | JArray "json list" | JObject "(string \<times> json) list"

datatype decode_error = SyntaxError | UnmarshalTypeError

datatype field = FType | FProductID | FPrice | FSize

text \<open>
  The library matches an object key with the tag of a field, an exact match first and
  a match that ignores case otherwise. The four tags differ also when case is ignored,
  so one comparison of the lower-cased key decides. Case is folded for ASCII letters.
\<close>

definition lower_ascii :: "char \<Rightarrow> char" where
  "lower_ascii c =
     (case map_of (zip ''ABCDEFGHIJKLMNOPQRSTUVWXYZ'' ''abcdefghijklmnopqrstuvwxyz'') c of
        Some l \<Rightarrow> l
      | None \<Rightarrow> c)"

definition field_for_key :: "string \<Rightarrow> field option" where
  "field_for_key k =
     (let f = map lower_ascii k
      in if f = ''type'' then Some FType
         else if f = ''product_id'' then Some FProductID
         else if f = ''price'' then Some FPrice
         else if f = ''size'' then Some FSize
         else None)"

fun set_field :: "field \<Rightarrow> string \<Rightarrow> Trade \<Rightarrow> Trade" where
  "set_field FType s t = t\<lparr>Type := s\<rparr>"
| "set_field FProductID s t = t\<lparr>ProductID := s\<rparr>"
| "set_field FPrice s t = t\<lparr>Price := s\<rparr>"
| "set_field FSize s t = t\<lparr>Size := s\<rparr>"

text \<open>
  Storing a JSON value into a field of Go type \<^verbatim>\<open>string\<close>: a JSON string is stored,
  \<^verbatim>\<open>null\<close> leaves the field as it is, every other value (a number, a boolean, an array,
  an object) is an \<^verbatim>\<open>UnmarshalTypeError\<close> and leaves the field as it is.
\<close>

fun store_field :: "field \<Rightarrow> json \<Rightarrow> Trade \<Rightarrow> decode_error option \<times> Trade" where
  "store_field f (JString s) t = (None, set_field f s t)"
| "store_field f JNull t = (None, t)"
| "store_field f _ t = (Some UnmarshalTypeError, t)"

text \<open>
  The members of an object are stored in their order; a key that matches no field is
  skipped; decoding goes on after a type error and the first error is the one returned.
\<close>

fun decode_members ::
  "(string \<times> json) list \<Rightarrow> decode_error option \<Rightarrow> Trade \<Rightarrow> decode_error option \<times> Trade" where
  "decode_members [] err t = (err, t)"
| "decode_members ((k, j) # ms) err t =
     (case field_for_key k of
        None \<Rightarrow> decode_members ms err t
      | Some f \<Rightarrow>
          (case store_field f j t of
             (e, t1) \<Rightarrow> decode_members ms (case err of None \<Rightarrow> e | Some e0 \<Rightarrow> Some e0) t1))"

definition Unmarshal :: "json option \<Rightarrow> Trade \<Rightarrow> decode_error option \<times> Trade" where
  "Unmarshal message t =
     (case message of
        None \<Rightarrow> (Some SyntaxError, t)
      | Some (JObject ms) \<Rightarrow> decode_members ms None t
      | Some JNull \<Rightarrow> (None, t)
      | Some _ \<Rightarrow> (Some UnmarshalTypeError, t))"

section \<open>processMessage, handleConnection and main\<close>

text \<open>What \<^verbatim>\<open>processMessage\<close> writes: the lines of the logger and the line on standard output.\<close>

datatype event =
  LogDecodeError decode_error
  | LogReceivedTrade string string string
  | LogUnknownProduct string
  | LogUpdateFailed error
  | PrintVWAP string string

text \<open>
  \<^verbatim>\<open>func processMessage(message []byte, calculators map[string]Calculator, logger Logger)\<close>
  The map holds pointers: the calculator a call updates is updated in the map.
\<close>

definition processMessage ::
  "(string \<Rightarrow> rat option) \<Rightarrow> (rat \<Rightarrow> nat \<Rightarrow> string) \<Rightarrow> json option
     \<Rightarrow> (string \<rightharpoonup> VWAPCalculator) \<Rightarrow> panic + (event list \<times> (string \<rightharpoonup> VWAPCalculator))" where
  "processMessage SetString FloatString message calculators =
     (case Unmarshal message zeroTrade of
        (Some err, trade) \<Rightarrow> Inr ([LogDecodeError err], calculators)
      | (None, trade) \<Rightarrow>
          if Type trade \<noteq> ''match'' then Inr ([], calculators)
          else
            (case calculators (ProductID trade) of
               None \<Rightarrow>
                 Inr ([LogReceivedTrade (ProductID trade) (Size trade) (Price trade),
                       LogUnknownProduct (ProductID trade)], calculators)
             | Some calculator \<Rightarrow>
                 (case Update SetString calculator (Price trade) (Size trade) of
                    Inl p \<Rightarrow> Inl p
                  | Inr (Some e, c1) \<Rightarrow>
                      Inr ([LogReceivedTrade (ProductID trade) (Size trade) (Price trade),
                            LogUpdateFailed e], calculators(ProductID trade \<mapsto> c1))
                  | Inr (None, c1) \<Rightarrow>
                      (case Calculate FloatString c1 of
                         Inl p \<Rightarrow> Inl p
                       | Inr (vwap, c2) \<Rightarrow>
                           Inr ([LogReceivedTrade (ProductID trade) (Size trade) (Price trade),
                                 PrintVWAP (ProductID trade) vwap],
                                calculators(ProductID trade \<mapsto> c2))))))"

text \<open>
  One pass of the loop of \<^verbatim>\<open>main\<close> dials once. The environment decides what a dial
  gives: a failure, or a connection, of which the model keeps whether the subscription
  is written and the frames read before the read fails.
\<close>

datatype attempt = DialFails | Connects bool "json option list"

text \<open>
  \<^verbatim>\<open>handleConnection\<close>: returns at once when \<^verbatim>\<open>subscribe\<close> fails; otherwise the frames
  are handed to \<^verbatim>\<open>processMessage\<close> in their order until the read error arrives.
\<close>

fun process_frames ::
  "(string \<Rightarrow> rat option) \<Rightarrow> (rat \<Rightarrow> nat \<Rightarrow> string) \<Rightarrow> json option list
     \<Rightarrow> (string \<rightharpoonup> VWAPCalculator) \<Rightarrow> panic + (event list \<times> (string \<rightharpoonup> VWAPCalculator))" where
  "process_frames SetString FloatString [] calculators = Inr ([], calculators)"
| "process_frames SetString FloatString (message # rest) calculators =
     (case processMessage SetString FloatString message calculators of
        Inl p \<Rightarrow> Inl p
      | Inr (evs, c1) \<Rightarrow>
          (case process_frames SetString FloatString rest c1 of
             Inl p \<Rightarrow> Inl p
           | Inr (evs', c2) \<Rightarrow> Inr (evs @ evs', c2)))"

definition handleConnection ::
  "(string \<Rightarrow> rat option) \<Rightarrow> (rat \<Rightarrow> nat \<Rightarrow> string) \<Rightarrow> bool \<Rightarrow> json option list
     \<Rightarrow> (string \<rightharpoonup> VWAPCalculator) \<Rightarrow> panic + (event list \<times> (string \<rightharpoonup> VWAPCalculator))" where
  "handleConnection SetString FloatString subscribed frames calculators =
     (if \<not> subscribed then Inr ([], calculators)
      else process_frames SetString FloatString frames calculators)"

text \<open>
  The loop of \<^verbatim>\<open>main\<close> over the outcomes of its dials. \<open>Terminated\<close>: \<^verbatim>\<open>main\<close> has
  returned; \<open>Looping\<close>: every given outcome is used up and the loop is about to dial
  again. \<open>dials\<close> counts the calls of \<^verbatim>\<open>connectWebSocket\<close>.
\<close>

datatype status = Terminated | Looping

record main_state =
  status :: status
  retryCount :: int
  calculators :: "string \<rightharpoonup> VWAPCalculator"
  dials :: nat

fun main_loop ::
  "(string \<Rightarrow> rat option) \<Rightarrow> (rat \<Rightarrow> nat \<Rightarrow> string) \<Rightarrow> int \<Rightarrow> (string \<rightharpoonup> VWAPCalculator)
     \<Rightarrow> nat \<Rightarrow> attempt list \<Rightarrow> panic + main_state" where
  "main_loop SetString FloatString rc cs n [] =
     Inr \<lparr>status = Looping, retryCount = rc, calculators = cs, dials = n\<rparr>"
| "main_loop SetString FloatString rc cs n (DialFails # rest) =
     (if rc + 1 > maxRetries
      then Inr \<lparr>status = Terminated, retryCount = rc + 1, calculators = cs, dials = n + 1\<rparr>
      else main_loop SetString FloatString (rc + 1) cs (n + 1) rest)"
| "main_loop SetString FloatString rc cs n (Connects subscribed frames # rest) =
     (case handleConnection SetString FloatString subscribed frames cs of
        Inl p \<Rightarrow> Inl p
      | Inr (evs, cs1) \<Rightarrow> main_loop SetString FloatString 0 cs1 (n + 1) rest)"

definition initial_calculators :: "string \<rightharpoonup> VWAPCalculator" where
  "initial_calculators =
     [''BTC-USD'' \<mapsto> NewVWAPCalculator, ''ETH-USD'' \<mapsto> NewVWAPCalculator,
      ''ETH-BTC'' \<mapsto> NewVWAPCalculator]"

definition main ::
  "(string \<Rightarrow> rat option) \<Rightarrow> (rat \<Rightarrow> nat \<Rightarrow> string) \<Rightarrow> attempt list \<Rightarrow> panic + main_state" where
  "main SetString FloatString outcomes =
     main_loop SetString FloatString 0 initial_calculators 0 outcomes"

text \<open>
  The longest run of consecutive failed dials in a list of outcomes, a run of length
  \<open>c\<close> being under way at its start.
\<close>

fun longest_failure_run :: "nat \<Rightarrow> attempt list \<Rightarrow> nat" where
  "longest_failure_run c [] = c"
| "longest_failure_run c (DialFails # rest) = longest_failure_run (c + 1) rest"
| "longest_failure_run c (Connects subscribed frames # rest) =
     max c (longest_failure_run 0 rest)"

text \<open>
  The number of failed dials since the last connection at the end of a list of
  outcomes, \<open>c\<close> failures having been counted at its start.
\<close>

fun failure_run :: "nat \<Rightarrow> attempt list \<Rightarrow> nat" where
  "failure_run c [] = c"
| "failure_run c (DialFails # rest) = failure_run (c + 1) rest"
| "failure_run c (Connects subscribed frames # rest) = failure_run 0 rest"

text \<open>Every calculator of a map has a ring buffer of the right shape.\<close>

definition calculators_ok :: "(string \<rightharpoonup> VWAPCalculator) \<Rightarrow> bool" where
  "calculators_ok cs \<longleftrightarrow> (\<forall>v \<in> ran cs. rb_ok (buffer v))"

section \<open>Sample values of the library functions\<close>

text \<open>
  The two library functions on the literals of \<^verbatim>\<open>vwap_test.go\<close>, for evaluating the
  model on concrete calls: \<^verbatim>\<open>Update("100", "2")\<close> followed by \<^verbatim>\<open>Calculate()\<close> gives
  \<^verbatim>\<open>"100.0000"\<close>, and \<^verbatim>\<open>Update("-100", "1")\<close> is rejected. Outside these literals
  the sample functions say nothing about the library.
\<close>

definition sample_SetString :: "string \<Rightarrow> rat option" where
  "sample_SetString s =
     map_of [(''100'', 100), (''2'', 2), (''1'', 1), (''-100'', - 100), (''-1'', - 1),
             (''-50'', - 50), (''-2'', - 2)] s"

definition sample_FloatString :: "rat \<Rightarrow> nat \<Rightarrow> string" where
  "sample_FloatString x prec = (if x = 100 \<and> prec = 4 then ''100.0000'' else ''?'')"

section \<open>Properties of RingBuffer\<close>

lemma windowSize_pos: "0 < windowSize"
  by (simp add: windowSize_def)

lemma go_rem_nonneg: "0 \<le> a \<Longrightarrow> 0 < b \<Longrightarrow> go_rem a b = a mod b"
  by (cases "a = 0") (simp_all add: go_rem_def)

lemma slot_pos_even:
  fixes s n :: int
  shows "even s \<Longrightarrow> even ((s + 2 * int i) mod (2 * n))"
  by (simp add: dvd_mod_iff)

lemma slot_pos_distinct:
  fixes s n :: int
  assumes "i < j" "int j < n"
  shows "(s + 2 * int i) mod (2 * n) \<noteq> (s + 2 * int j) mod (2 * n)"
proof
  assume "(s + 2 * int i) mod (2 * n) = (s + 2 * int j) mod (2 * n)"
  then have "2 * n dvd (s + 2 * int j) - (s + 2 * int i)"
    by (metis mod_eq_dvd_iff)
  moreover have "(s + 2 * int j) - (s + 2 * int i) = 2 * (int j - int i)"
    by simp
  ultimately have "2 * n dvd 2 * (int j - int i)"
    by simp
  then have "n dvd int j - int i"
    by (simp only: dvd_mult_cancel_left) simp
  moreover have "0 < int j - int i" "int j - int i < n"
    using assms by simp_all
  ultimately show False
    using zdvd_imp_le by fastforce
qed

lemma even_pos_bounds:
  fixes p n :: int
  assumes "even p" "0 \<le> p" "p < 2 * n"
  shows "p + 1 < 2 * n"
  using assms by presburger

lemma Add_notfull:
  assumes "rb_ok rb" "count rb \<noteq> windowSize"
  defines "pos \<equiv> nat ((start rb + 2 * count rb) mod (2 * windowSize))"
  shows "Add rb p s = Inr ((None, None, False),
           rb\<lparr>count := count rb + 1, data := (data rb)[pos := p, pos + 1 := s]\<rparr>)"
proof -
  let ?q = "(start rb + 2 * count rb) mod (2 * windowSize)"
  have len: "int (length (data rb)) = 2 * windowSize"
    using assms(1) windowSize_pos by (simp add: rb_ok_def)
  have nn: "0 \<le> start rb + 2 * count rb"
    using assms(1) by (simp add: rb_ok_def)
  have q0: "0 \<le> ?q" and q1: "?q < 2 * windowSize"
    using windowSize_pos by simp_all
  have "even ?q"
    using assms(1) by (simp add: rb_ok_def dvd_mod_iff)
  then have q2: "?q + 1 < 2 * windowSize"
    using q0 q1 by (rule even_pos_bounds)
  have g: "go_rem (start rb + count rb * 2) (2 * windowSize) = ?q"
    using nn windowSize_pos by (simp add: go_rem_nonneg mult.commute)
  have n1: "nat (?q + 1) = nat ?q + 1"
    using q0 by simp
  show ?thesis
    using assms(2) q0 q1 q2 n1
    by (simp add: Add_def Let_def g in_bounds_def len pos_def del: One_nat_def)
qed

lemma Add_full:
  assumes "rb_ok rb" "count rb = windowSize"
  shows "Add rb p s = Inr ((Some (data rb ! nat (start rb)), Some (data rb ! (nat (start rb) + 1)), True),
           rb\<lparr>start := (start rb + 2) mod (2 * windowSize),
              data := (data rb)[nat (start rb) := p, nat (start rb) + 1 := s]\<rparr>)"
proof -
  have len: "int (length (data rb)) = 2 * windowSize"
    using assms(1) windowSize_pos by (simp add: rb_ok_def)
  have s0: "0 \<le> start rb" and s1: "start rb < 2 * windowSize" and ev: "even (start rb)"
    using assms(1) by (simp_all add: rb_ok_def)
  have s2: "start rb + 1 < 2 * windowSize"
    using ev s0 s1 by (rule even_pos_bounds)
  have g1: "go_rem (start rb + 2) (2 * windowSize) = (start rb + 2) mod (2 * windowSize)"
    using s0 windowSize_pos by (simp add: go_rem_nonneg)
  have "((start rb + 2) mod (2 * windowSize) + (windowSize - 1) * 2) mod (2 * windowSize)
        = (start rb + 2 + (windowSize - 1) * 2) mod (2 * windowSize)"
    by (simp add: mod_add_left_eq)
  also have "\<dots> = (start rb + 2 * windowSize) mod (2 * windowSize)"
    by (simp add: algebra_simps)
  also have "\<dots> = start rb"
    using s0 s1 by simp
  finally have m: "((start rb + 2) mod (2 * windowSize) + (windowSize - 1) * 2) mod (2 * windowSize) = start rb" .
  have nn: "0 \<le> (start rb + 2) mod (2 * windowSize) + (windowSize - 1) * 2"
    using windowSize_pos by simp
  have g2: "go_rem ((start rb + 2) mod (2 * windowSize) + (windowSize * 2 - 2)) (2 * windowSize) = start rb"
    using nn windowSize_pos m by (simp add: go_rem_nonneg algebra_simps)
  have n1: "nat (start rb + 1) = nat (start rb) + 1"
    using s0 by simp
  show ?thesis
    using assms(2) s0 s1 s2 n1
    by (simp add: Add_def Let_def g1 g2 in_bounds_def len del: One_nat_def)
qed

lemma pos_next_in_array:
  fixes s n :: int
  assumes "even s" "0 < n"
  shows "nat ((s + 2 * int i) mod (2 * n)) + 1 < nat (2 * n)"
proof -
  let ?q = "(s + 2 * int i) mod (2 * n)"
  have "even ?q" using assms(1) by (rule slot_pos_even)
  moreover have "0 \<le> ?q" "?q < 2 * n" using assms(2) by simp_all
  ultimately have "?q + 1 < 2 * n" by (rule even_pos_bounds)
  then show ?thesis using \<open>0 \<le> ?q\<close> by linarith
qed

lemma pos_apart:
  fixes s n :: int
  assumes "even s" "0 < n" "i \<noteq> j" "int i < n" "int j < n"
  defines "P \<equiv> \<lambda>k. nat ((s + 2 * int k) mod (2 * n))"
  shows "P i \<noteq> P j" and "P i \<noteq> P j + 1" and "P i + 1 \<noteq> P j"
proof -
  have nn: "\<And>k. 0 \<le> (s + 2 * int k) mod (2 * n)"
    using assms(2) by simp
  have ev: "\<And>k. even (P k)"
    unfolding P_def using nn assms(1) by (simp add: even_nat_iff slot_pos_even)
  have "(s + 2 * int i) mod (2 * n) \<noteq> (s + 2 * int j) mod (2 * n)"
  proof (cases "i < j")
    case True
    then show ?thesis using assms(5) by (rule slot_pos_distinct)
  next
    case False
    then have "j < i" using assms(3) by simp
    then have "(s + 2 * int j) mod (2 * n) \<noteq> (s + 2 * int i) mod (2 * n)"
      using assms(4) by (rule slot_pos_distinct)
    then show ?thesis by simp
  qed
  then show "P i \<noteq> P j"
    unfolding P_def using nn by (simp add: nat_eq_iff)
  show "P i \<noteq> P j + 1"
    using ev[of i] ev[of j] by presburger
  show "P i + 1 \<noteq> P j"
    using ev[of i] ev[of j] by presburger
qed

lemma slot_after_write:
  assumes ok: "rb_ok rb" and ij: "i \<noteq> j" "int i < windowSize" "int j < windowSize"
  defines "q \<equiv> nat ((start rb + 2 * int j) mod (2 * windowSize))"
  shows "slot (rb\<lparr>data := (data rb)[q := p, q + 1 := s]\<rparr>) i = slot rb i"
proof -
  have len: "int (length (data rb)) = 2 * windowSize"
    using ok windowSize_pos by (simp add: rb_ok_def)
  have ev: "even (start rb)" using ok by (simp add: rb_ok_def)
  let ?P = "\<lambda>k. nat ((start rb + 2 * int k) mod (2 * windowSize))"
  note ap = pos_apart[OF ev windowSize_pos ij]
  have "(data rb)[q := p, q + 1 := s] ! ?P i = data rb ! ?P i"
    using ap by (simp add: q_def del: One_nat_def)
  moreover have "(data rb)[q := p, q + 1 := s] ! (?P i + 1) = data rb ! (?P i + 1)"
    using ap by (simp add: q_def del: One_nat_def)
  ultimately show ?thesis
    by (simp add: slot_def Let_def len del: One_nat_def)
qed

lemma slot_at_write:
  assumes ok: "rb_ok rb" and j: "int j < windowSize"
  defines "q \<equiv> nat ((start rb + 2 * int j) mod (2 * windowSize))"
  shows "slot (rb\<lparr>data := (data rb)[q := p, q + 1 := s]\<rparr>) j = (p, s)"
proof -
  have len: "int (length (data rb)) = 2 * windowSize"
    using ok windowSize_pos by (simp add: rb_ok_def)
  have len': "length (data rb) = nat (2 * windowSize)"
    using ok by (simp add: rb_ok_def mult.commute)
  have ev: "even (start rb)" using ok by (simp add: rb_ok_def)
  have b: "q + 1 < length (data rb)"
    unfolding q_def len' using ev windowSize_pos by (rule pos_next_in_array)
  show ?thesis
    using b by (simp add: slot_def Let_def len q_def[symmetric] del: One_nat_def)
qed

lemma contents_Add_notfull:
  assumes ok: "rb_ok rb" and nf: "count rb \<noteq> windowSize"
      and r: "Add rb p s = Inr (res, rb')"
  shows "contents rb' = contents rb @ [(p, s)]" and "res = (None, None, False)"
    and "rb_ok rb'"
proof -
  let ?c = "nat (count rb)"
  let ?q = "nat ((start rb + 2 * int ?c) mod (2 * windowSize))"
  let ?w = "rb\<lparr>data := (data rb)[?q := p, ?q + 1 := s]\<rparr>"
  have c0: "0 \<le> count rb" and c1: "count rb < windowSize"
    using ok nf by (simp_all add: rb_ok_def)
  have cw: "int ?c < windowSize" using c0 c1 by simp
  have rb': "rb' = ?w\<lparr>count := count rb + 1\<rparr>" and res: "res = (None, None, False)"
    using r Add_notfull[OF ok nf, of p s] c0 by auto
  show "res = (None, None, False)" by (rule res)
  show "rb_ok rb'"
    using ok c1 by (simp add: rb' rb_ok_def)
  have slots: "slot rb' = slot ?w"
    by (rule ext) (simp add: rb' slot_def)
  have old: "map (slot ?w) [0..<?c] = map (slot rb) [0..<?c]"
  proof (rule map_cong[OF refl])
    fix i assume "i \<in> set [0..<?c]"
    then have "i < ?c" by simp
    then have "i \<noteq> ?c" "int i < windowSize" using cw by linarith+
    then show "slot ?w i = slot rb i"
      using cw by (rule slot_after_write[OF ok])
  qed
  have new: "slot ?w ?c = (p, s)"
    using ok cw by (rule slot_at_write)
  have cnt: "nat (count rb') = Suc ?c"
    using c0 by (simp add: rb')
  have "contents rb' = map (slot rb') [0..<Suc ?c]"
    by (simp only: contents_def cnt)
  also have "\<dots> = map (slot rb') [0..<?c] @ [slot rb' ?c]"
    by (simp only: upt_Suc map_append list.map le0 if_True)
  also have "\<dots> = map (slot ?w) [0..<?c] @ [slot ?w ?c]"
    by (simp only: slots)
  also have "\<dots> = contents rb @ [(p, s)]"
    by (simp only: old new contents_def)
  finally show "contents rb' = contents rb @ [(p, s)]" .
qed

lemma slot_shift:
  assumes "int (length (data rb)) = 2 * windowSize"
  shows "slot (rb\<lparr>start := (start rb + 2) mod (2 * windowSize)\<rparr>) k = slot rb (Suc k)"
proof -
  have "((start rb + 2) mod (2 * windowSize) + 2 * int k) mod (2 * windowSize)
        = (start rb + 2 + 2 * int k) mod (2 * windowSize)"
    by (simp add: mod_add_left_eq)
  then show ?thesis
    by (simp add: slot_def Let_def assms algebra_simps)
qed

lemma slot_wrap:
  assumes "int (length (data rb)) = 2 * windowSize"
  shows "slot rb (nat windowSize) = slot rb 0"
proof -
  have "(start rb + 2 * windowSize) mod (2 * windowSize) = start rb mod (2 * windowSize)"
    by simp
  then show ?thesis
    using windowSize_pos by (simp add: slot_def Let_def assms)
qed

lemma contents_Add_full:
  assumes ok: "rb_ok rb" and full: "count rb = windowSize"
      and r: "Add rb p s = Inr (res, rb')"
  shows "contents rb' = tl (contents rb) @ [(p, s)]"
    and "res = (Some (fst (hd (contents rb))), Some (snd (hd (contents rb))), True)"
    and "rb_ok rb'"
proof -
  let ?q = "nat ((start rb + 2 * int 0) mod (2 * windowSize))"
  let ?w = "rb\<lparr>data := (data rb)[?q := p, ?q + 1 := s]\<rparr>"
  have len: "int (length (data rb)) = 2 * windowSize"
    using ok windowSize_pos by (simp add: rb_ok_def)
  have s0: "0 \<le> start rb" and s1: "start rb < 2 * windowSize" and ev: "even (start rb)"
    using ok by (simp_all add: rb_ok_def)
  have q: "?q = nat (start rb)"
    using s0 s1 by simp
  obtain M where M: "nat windowSize = Suc M"
    using windowSize_pos by (cases "nat windowSize") simp_all
  have rb': "rb' = ?w\<lparr>start := (start rb + 2) mod (2 * windowSize)\<rparr>"
    and res': "res = (Some (data rb ! nat (start rb)), Some (data rb ! (nat (start rb) + 1)), True)"
    using r Add_full[OF ok full, of p s] s0 s1 by auto
  have hd0: "hd (contents rb) = slot rb 0"
    by (simp add: contents_def full M hd_map upt_conv_Cons del: upt_Suc)
  show "res = (Some (fst (hd (contents rb))), Some (snd (hd (contents rb))), True)"
    using s0 s1 by (simp add: res' hd0 slot_def Let_def len)
  have m1: "(start rb + 2) mod (2 * windowSize) < windowSize * 2"
    using pos_mod_bound[of "2 * windowSize" "start rb + 2"] windowSize_pos by linarith
  show "rb_ok rb'"
    using ok windowSize_pos m1 by (simp add: rb' rb_ok_def dvd_mod_iff)
  have lenw: "int (length (data ?w)) = 2 * windowSize"
    using len by simp
  have sh: "slot rb' = (\<lambda>k. slot ?w (Suc k))"
    unfolding rb' using slot_shift[OF lenw] by (intro ext) simp
  have z: "int 0 < windowSize" using windowSize_pos by simp
  have old: "map (\<lambda>k. slot ?w (Suc k)) [0..<M] = map (\<lambda>k. slot rb (Suc k)) [0..<M]"
  proof (rule map_cong[OF refl])
    fix k assume "k \<in> set [0..<M]"
    then have "Suc k < nat windowSize" by (simp add: M)
    then have "Suc k \<noteq> 0" "int (Suc k) < windowSize" by linarith+
    then show "slot ?w (Suc k) = slot rb (Suc k)"
      using z by (rule slot_after_write[OF ok])
  qed
  have "slot ?w (Suc M) = slot ?w 0"
    using slot_wrap[OF lenw] by (simp add: M)
  also have "\<dots> = (p, s)"
    by (rule slot_at_write[OF ok z])
  finally have new: "slot ?w (Suc M) = (p, s)" .
  have cnt: "nat (count rb') = Suc M"
    by (simp add: rb' full M)
  have "contents rb' = map (slot rb') [0..<Suc M]"
    by (simp only: contents_def cnt)
  also have "\<dots> = map (slot rb') [0..<M] @ [slot rb' M]"
    by (simp only: upt_Suc map_append list.map le0 if_True)
  also have "\<dots> = map (\<lambda>k. slot ?w (Suc k)) [0..<M] @ [slot ?w (Suc M)]"
    by (simp only: sh)
  also have "\<dots> = map (slot rb) (map Suc [0..<M]) @ [(p, s)]"
    by (simp only: old new map_map comp_def)
  also have "map (slot rb) (map Suc [0..<M]) = tl (contents rb)"
    by (simp add: contents_def full M map_Suc_upt map_tl[symmetric] del: upt_Suc)
  finally show "contents rb' = tl (contents rb) @ [(p, s)]" .
qed

lemma rb_ok_empty: "rb_ok emptyRingBuffer"
  using windowSize_pos by (simp add: rb_ok_def emptyRingBuffer_def)

lemma contents_empty: "contents emptyRingBuffer = []"
  by (simp add: contents_def emptyRingBuffer_def)

lemma length_contents: "length (contents rb) = nat (count rb)"
  by (simp add: contents_def)

lemma window_short: "length h \<le> nat windowSize \<Longrightarrow> window h = h"
  by (simp add: window_def)

lemma length_window: "length (window h) = min (length h) (nat windowSize)"
  by (simp add: window_def)

lemma window_snoc_short:
  "length h < nat windowSize \<Longrightarrow> window (h @ [x]) = window h @ [x]"
  by (simp add: window_def)

lemma window_snoc_full:
  assumes "nat windowSize \<le> length h"
  shows "window (h @ [x]) = tl (window h) @ [x]"
    and "hd (window h) = h ! (length h - nat windowSize)"
proof -
  have pos: "0 < nat windowSize" using windowSize_pos by simp
  have lt: "length h - nat windowSize < length h"
    using assms pos by linarith
  have "Suc (length h) - nat windowSize = Suc (length h - nat windowSize)"
    using assms by simp
  then show "window (h @ [x]) = tl (window h) @ [x]"
    using lt by (simp add: window_def drop_Suc tl_drop)
  show "hd (window h) = h ! (length h - nat windowSize)"
    using lt by (simp add: window_def hd_drop_conv_nth)
qed

lemma Add_history:
  assumes ok: "rb_ok rb" and h: "contents rb = window h"
  shows "\<exists>rb'. Add rb p s = Inr (fifo_result h (length h), rb') \<and> rb_ok rb'
           \<and> contents rb' = window (h @ [(p, s)])"
proof -
  have len: "nat (count rb) = min (length h) (nat windowSize)"
    using h length_contents[of rb] by (simp add: length_window)
  have c0: "0 \<le> count rb" using ok by (simp add: rb_ok_def)
  show ?thesis
  proof (cases "count rb = windowSize")
    case True
    then have full: "nat windowSize \<le> length h" using len by simp
    obtain res rb' where r: "Add rb p s = Inr (res, rb')"
      using Add_full[OF ok True] by blast
    note f = contents_Add_full[OF ok True r]
    have "res = fifo_result h (length h)"
      using f(2) full by (simp add: h window_snoc_full(2) fifo_result_def)
    moreover have "contents rb' = window (h @ [(p, s)])"
      using f(1) full by (simp add: h window_snoc_full(1))
    ultimately show ?thesis using r f(3) by simp
  next
    case False
    then have short: "length h < nat windowSize"
      using len c0 ok by (simp add: rb_ok_def min_def split: if_splits)
    obtain res rb' where r: "Add rb p s = Inr (res, rb')"
      using Add_notfull[OF ok False] by blast
    note f = contents_Add_notfull[OF ok False r]
    have "res = fifo_result h (length h)"
      using f(2) short by (simp add: fifo_result_def)
    moreover have "contents rb' = window (h @ [(p, s)])"
      using f(1) short by (simp add: h window_snoc_short)
    ultimately show ?thesis using r f(3) by simp
  qed
qed

lemma fifo_result_prefix:
  "k \<le> length h \<Longrightarrow> fifo_result (h @ xs) k = fifo_result h k" if "0 < nat windowSize"
  using that by (auto simp: fifo_result_def nth_append)

lemma adds_history:
  assumes "rb_ok rb" "contents rb = window h"
  shows "\<exists>rb'. adds rb xs = Inr (map (fifo_result (h @ xs)) [length h..<length h + length xs], rb')
           \<and> rb_ok rb' \<and> contents rb' = window (h @ xs)"
  using assms
proof (induction xs arbitrary: rb h)
  case Nil
  then show ?case by simp
next
  case (Cons x xs)
  obtain p s where x: "x = (p, s)" by (cases x)
  obtain rb1 where a: "Add rb p s = Inr (fifo_result h (length h), rb1)"
    and ok1: "rb_ok rb1" and c1: "contents rb1 = window (h @ [(p, s)])"
    using Add_history[OF Cons.prems] by blast
  obtain rb2 where b: "adds rb1 xs = Inr (map (fifo_result ((h @ [(p, s)]) @ xs))
        [length (h @ [(p, s)])..<length (h @ [(p, s)]) + length xs], rb2)"
    and ok2: "rb_ok rb2" and c2: "contents rb2 = window ((h @ [(p, s)]) @ xs)"
    using Cons.IH[OF ok1 c1] by blast
  have pos: "0 < nat windowSize" using windowSize_pos by simp
  have hd: "fifo_result h (length h) = fifo_result (h @ x # xs) (length h)"
    using fifo_result_prefix[OF pos, of "length h" h "x # xs"] by simp
  have "[length h..<length h + length (x # xs)]
        = length h # [Suc (length h)..<Suc (length h) + length xs]"
    by (subst upt_rec) simp
  then show ?case
    using a b ok2 c2 by (simp add: x hd[unfolded x])
qed

lemma Add_total:
  assumes "rb_ok rb"
  shows "\<exists>res rb'. Add rb p s = Inr (res, rb') \<and> rb_ok rb'"
proof (cases "count rb = windowSize")
  case True
  then obtain res rb' where r: "Add rb p s = Inr (res, rb')"
    using Add_full[OF assms] by blast
  then show ?thesis using contents_Add_full(3)[OF assms True r] by blast
next
  case False
  then obtain res rb' where r: "Add rb p s = Inr (res, rb')"
    using Add_notfull[OF assms] by blast
  then show ?thesis using contents_Add_notfull(3)[OF assms False r] by blast
qed

lemma Add_checked:
  assumes "Add rb p s = Inr (res, rb')"
  shows "in_bounds (data rb) (go_rem (start rb' + (count rb' - 1) * 2) (int (length (data rb))))"
    and "in_bounds (data rb) (go_rem (start rb' + (count rb' - 1) * 2) (int (length (data rb))) + 1)"
    and "count rb = windowSize \<Longrightarrow> in_bounds (data rb) (start rb) \<and> in_bounds (data rb) (start rb + 1)"
  using assms by (auto simp: Add_def Let_def split: if_splits)

text \<open>
  C9. For every ring buffer of the right shape (the array has length 2 * windowSize,
  0 <= count <= windowSize, start is even and 0 <= start < 2 * windowSize), which
  the empty buffer is, the indices start and start + 1 lie in the array, Add returns
  without a panic, the position pos it writes at and pos + 1 lie in the array, and the
  buffer it leaves has the right shape again.
\<close>

theorem Add_never_out_of_bounds:
  assumes "rb_ok rb"
  shows "rb_ok emptyRingBuffer \<and>
         in_bounds (data rb) (start rb) \<and> in_bounds (data rb) (start rb + 1) \<and>
         (\<exists>res rb'. Add rb price sz = Inr (res, rb') \<and> rb_ok rb' \<and>
            length (data rb') = length (data rb) \<and>
            in_bounds (data rb) (go_rem (start rb' + (count rb' - 1) * 2) (int (length (data rb)))) \<and>
            in_bounds (data rb)
              (go_rem (start rb' + (count rb' - 1) * 2) (int (length (data rb))) + 1))"
proof -
  have len: "int (length (data rb)) = 2 * windowSize"
    using assms windowSize_pos by (simp add: rb_ok_def)
  have s: "0 \<le> start rb" "start rb < 2 * windowSize" "even (start rb)"
    using assms by (simp_all add: rb_ok_def)
  have "start rb + 1 < 2 * windowSize"
    using s(3,1,2) by (rule even_pos_bounds)
  then have b: "in_bounds (data rb) (start rb)" "in_bounds (data rb) (start rb + 1)"
    using s by (simp_all add: in_bounds_def len)
  obtain res rb' where r: "Add rb price sz = Inr (res, rb')" and ok': "rb_ok rb'"
    using Add_total[OF assms] by blast
  have "length (data rb') = length (data rb)"
    using ok' assms by (simp add: rb_ok_def)
  then show ?thesis
    using rb_ok_empty b r ok' Add_checked(1,2)[OF r] by blast
qed

theorem Add_never_out_of_bounds_witness:
  "rb_ok emptyRingBuffer \<and>
   in_bounds (data emptyRingBuffer) (start emptyRingBuffer) \<and>
   in_bounds (data emptyRingBuffer) (start emptyRingBuffer + 1) \<and>
   (\<exists>res rb'. Add emptyRingBuffer 100 2 = Inr (res, rb') \<and> rb_ok rb' \<and>
      length (data rb') = length (data emptyRingBuffer) \<and>
      in_bounds (data emptyRingBuffer)
        (go_rem (start rb' + (count rb' - 1) * 2) (int (length (data emptyRingBuffer)))) \<and>
      in_bounds (data emptyRingBuffer)
        (go_rem (start rb' + (count rb' - 1) * 2) (int (length (data emptyRingBuffer))) + 1))"
proof -
  have h: "rb_ok emptyRingBuffer"
    by (simp add: rb_ok_def emptyRingBuffer_def windowSize_def)
  show ?thesis
    using Add_never_out_of_bounds [OF h, of 100 2] by simp
qed

text \<open>
  C2. Inserting any list of pairs into the empty buffer never panics. The buffer then
  holds min (number of inserts) windowSize slots, namely the last windowSize pairs
  inserted, in arrival order. Insert number k (counted from 0) returns removed = false
  when k < windowSize, and otherwise removed = true with the pair of insert number
  k - windowSize, whatever the prices and sizes are.
\<close>

theorem RingBuffer_fifo:
  "\<exists>rb. adds emptyRingBuffer xs = Inr (map (fifo_result xs) [0..<length xs], rb) \<and>
        count rb = min (int (length xs)) windowSize \<and>
        length (contents rb) = min (length xs) (nat windowSize) \<and>
        contents rb = drop (length xs - nat windowSize) xs"
proof -
  have "contents emptyRingBuffer = window []"
    by (simp add: contents_empty window_def)
  with rb_ok_empty obtain rb where
    a: "adds emptyRingBuffer xs = Inr (map (fifo_result ([] @ xs)) [length ([]::(rat \<times> rat) list)..<length ([]::(rat \<times> rat) list) + length xs], rb)"
    and ok: "rb_ok rb" and c: "contents rb = window ([] @ xs)"
    using adds_history[of emptyRingBuffer "[]" xs] by blast
  have l: "length (contents rb) = min (length xs) (nat windowSize)"
    using c by (simp add: length_window)
  then have "nat (count rb) = min (length xs) (nat windowSize)"
    by (simp add: length_contents)
  moreover have "0 \<le> count rb" "0 < windowSize"
    using ok windowSize_pos by (simp_all add: rb_ok_def)
  ultimately have "count rb = min (int (length xs)) windowSize"
    by linarith
  then show ?thesis
    using a c l by (simp add: window_def)
qed

section \<open>Properties of VWAPCalculator\<close>

lemma sum_pv_snoc: "sum_pv (ts @ [(p, s)]) = sum_pv ts + p * s"
  by (simp add: sum_pv_def)

lemma sum_volume_snoc: "sum_volume (ts @ [(p, s)]) = sum_volume ts + s"
  by (simp add: sum_volume_def)

lemma sum_pv_tl: "ts \<noteq> [] \<Longrightarrow> sum_pv (tl ts) = sum_pv ts - fst (hd ts) * snd (hd ts)"
  by (cases ts) (simp_all add: sum_pv_def split_beta)

lemma sum_volume_tl: "ts \<noteq> [] \<Longrightarrow> sum_volume (tl ts) = sum_volume ts - snd (hd ts)"
  by (cases ts) (simp_all add: sum_volume_def)

lemma Update_invalid:
  assumes "\<not> (\<exists>p s. SetString priceStr = Some p \<and> SetString sizeStr = Some s \<and> 0 < p \<and> 0 < s)"
  shows "Update SetString v priceStr sizeStr = Inr (Some InvalidTradeData, v)"
proof -
  have "\<And>p s. SetString priceStr = Some p \<Longrightarrow> SetString sizeStr = Some s \<Longrightarrow> p \<le> 0 \<or> s \<le> 0"
    using assms by (meson not_le)
  then show ?thesis
    by (simp add: Update_def split: option.splits)
qed

lemma Update_error_unchanged:
  assumes "Update SetString v priceStr sizeStr = Inr (Some e, v')"
  shows "v' = v"
  using assms
  by (auto simp: Update_def split: option.splits if_splits sum.splits prod.splits)

lemma Update_valid:
  assumes ok: "rb_ok (buffer v)" and h: "contents (buffer v) = window h" and sums: "sums_ok v"
    and p: "SetString priceStr = Some p" "0 < p" and s: "SetString sizeStr = Some s" "0 < s"
  shows "\<exists>v'. Update SetString v priceStr sizeStr = Inr (None, v') \<and> rb_ok (buffer v')
           \<and> contents (buffer v') = window (h @ [(p, s)]) \<and> sums_ok v'"
proof -
  obtain rb' where a: "Add (buffer v) p s = Inr (fifo_result h (length h), rb')"
    and ok': "rb_ok rb'" and c': "contents rb' = window (h @ [(p, s)])"
    using Add_history[OF ok h] by blast
  have tv: "totalPV v = sum_pv (window h)" "totalVolume v = sum_volume (window h)"
    using sums h by (simp_all add: sums_ok_def)
  show ?thesis
  proof (cases "nat windowSize \<le> length h")
    case True
    let ?e = "h ! (length h - nat windowSize)"
    let ?v' = "v\<lparr>buffer := rb', totalPV := totalPV v - fst ?e * snd ?e + p * s,
                 totalVolume := totalVolume v - snd ?e + s\<rparr>"
    have ne: "window h \<noteq> []"
      using True windowSize_pos length_window[of h] by (auto simp: min_def split: if_splits)
    have u: "Update SetString v priceStr sizeStr = Inr (None, ?v')"
      using p s a True by (simp add: Update_def fifo_result_def)
    have w: "window (h @ [(p, s)]) = tl (window h) @ [(p, s)]"
      and e: "hd (window h) = ?e"
      using window_snoc_full[OF True] by simp_all
    have "sums_ok ?v'"
      using ne by (simp add: sums_ok_def c' w sum_pv_snoc sum_volume_snoc sum_pv_tl
          sum_volume_tl e tv)
    then show ?thesis using u ok' c' by simp
  next
    case False
    let ?v' = "v\<lparr>buffer := rb', totalPV := totalPV v + p * s,
                 totalVolume := totalVolume v + s\<rparr>"
    have u: "Update SetString v priceStr sizeStr = Inr (None, ?v')"
      using p s a False by (simp add: Update_def fifo_result_def)
    have w: "window (h @ [(p, s)]) = window h @ [(p, s)]"
      using False by (simp add: window_snoc_short)
    have "sums_ok ?v'"
      by (simp add: sums_ok_def c' w sum_pv_snoc sum_volume_snoc tv)
    then show ?thesis using u ok' c' by simp
  qed
qed

lemma Calculate_returns:
  "Calculate FloatString v =
     Inr (if totalVolume v = 0 then ''0'' else FloatString (totalPV v / totalVolume v) 4, v)"
  by (simp add: Calculate_def Quo_def)

lemma calls_history:
  assumes "rb_ok (buffer v)" "contents (buffer v) = window h" "sums_ok v"
  shows "\<exists>rs v'. calls SetString FloatString v cs = Inr (rs, v') \<and> rb_ok (buffer v')
           \<and> contents (buffer v') = window (h @ accepted SetString cs) \<and> sums_ok v'"
  using assms
proof (induction cs arbitrary: v h)
  case Nil
  then show ?case by simp
next
  case (Cons c cs)
  show ?case
  proof (cases c)
    case (CallUpdate priceStr sizeStr)
    show ?thesis
    proof (cases "\<exists>p s. SetString priceStr = Some p \<and> SetString sizeStr = Some s \<and> 0 < p \<and> 0 < s")
      case True
      then obtain p s where ps: "SetString priceStr = Some p" "0 < p"
          "SetString sizeStr = Some s" "0 < s" by blast
      obtain v1 where u: "Update SetString v priceStr sizeStr = Inr (None, v1)"
        and i1: "rb_ok (buffer v1)" "contents (buffer v1) = window (h @ [(p, s)])" "sums_ok v1"
        using Update_valid[OF Cons.prems ps] by blast
      obtain rs v' where r: "calls SetString FloatString v1 cs = Inr (rs, v')"
        and i2: "rb_ok (buffer v')"
          "contents (buffer v') = window ((h @ [(p, s)]) @ accepted SetString cs)" "sums_ok v'"
        using Cons.IH[OF i1] by blast
      show ?thesis
        using u r i2 ps by (simp add: CallUpdate)
    next
      case False
      then have u: "Update SetString v priceStr sizeStr = Inr (Some InvalidTradeData, v)"
        by (rule Update_invalid)
      have acc: "accepted SetString (c # cs) = accepted SetString cs"
        using False by (auto simp: CallUpdate split: option.splits)
      obtain rs v' where r: "calls SetString FloatString v cs = Inr (rs, v')"
        and i2: "rb_ok (buffer v')"
          "contents (buffer v') = window (h @ accepted SetString cs)" "sums_ok v'"
        using Cons.IH[OF Cons.prems] by blast
      show ?thesis
        using u r i2 by (simp add: acc) (simp add: CallUpdate)
    qed
  next
    case CallCalculate
    obtain rs v' where r: "calls SetString FloatString v cs = Inr (rs, v')"
      and i2: "rb_ok (buffer v')"
        "contents (buffer v') = window (h @ accepted SetString cs)" "sums_ok v'"
      using Cons.IH[OF Cons.prems] by blast
    show ?thesis
      using r i2 by (simp add: CallCalculate Calculate_returns)
  qed
qed

lemma fresh_invariants:
  "rb_ok (buffer NewVWAPCalculator)" "contents (buffer NewVWAPCalculator) = window []"
  "sums_ok NewVWAPCalculator"
  using rb_ok_empty contents_empty
  by (simp_all add: NewVWAPCalculator_def window_def sums_ok_def sum_pv_def sum_volume_def)

lemma sum_volume_pos:
  assumes "ts \<noteq> []" "\<forall>(p, s) \<in> set ts. 0 < s"
  shows "0 < sum_volume ts"
  using assms
proof (induction ts)
  case Nil
  then show ?case by simp
next
  case (Cons t ts)
  obtain p s where t: "t = (p, s)" by (cases t)
  have s: "0 < s" using Cons.prems(2) by (simp add: t)
  show ?case
  proof (cases "ts = []")
    case True
    then show ?thesis using s by (simp add: sum_volume_def t)
  next
    case False
    then have "0 < sum_volume ts" using Cons by simp
    then show ?thesis using s by (simp add: sum_volume_def t)
  qed
qed

lemma updates_valid:
  assumes "list_all2 (\<lambda>(priceStr, sizeStr) (price, sz).
             SetString priceStr = Some price \<and> SetString sizeStr = Some sz \<and> 0 < price \<and> 0 < sz)
           ts qs"
    and "rb_ok (buffer v)" "contents (buffer v) = window h" "sums_ok v"
  shows "\<exists>v'. calls SetString FloatString v (map (\<lambda>(priceStr, sizeStr). CallUpdate priceStr sizeStr) ts)
               = Inr (map (\<lambda>t. UpdateReturns None) ts, v')
           \<and> rb_ok (buffer v') \<and> contents (buffer v') = window (h @ qs) \<and> sums_ok v'"
  using assms
proof (induction ts qs arbitrary: v h rule: list_all2_induct)
  case Nil
  then show ?case by simp
next
  case (Cons t ts q qs)
  obtain priceStr sizeStr where t: "t = (priceStr, sizeStr)" by (cases t)
  obtain p s where q: "q = (p, s)" by (cases q)
  have ps: "SetString priceStr = Some p" "0 < p" "SetString sizeStr = Some s" "0 < s"
    using Cons.hyps(1) by (simp_all add: t q)
  obtain v1 where u: "Update SetString v priceStr sizeStr = Inr (None, v1)"
    and i1: "rb_ok (buffer v1)" "contents (buffer v1) = window (h @ [(p, s)])" "sums_ok v1"
    using Update_valid[OF Cons.prems ps] by blast
  obtain v' where r: "calls SetString FloatString v1
        (map (\<lambda>(priceStr, sizeStr). CallUpdate priceStr sizeStr) ts)
        = Inr (map (\<lambda>t. UpdateReturns None) ts, v')"
    and i2: "rb_ok (buffer v')" "contents (buffer v') = window ((h @ [(p, s)]) @ qs)" "sums_ok v'"
    using Cons.IH[OF i1] by blast
  show ?case
    using u r i2 by (simp add: t q)
qed

text \<open>
  C1. Let ts be calls of Update whose strings the library parses to the positive
  rationals qs. Applied to a fresh calculator, every call returns nil, the running sums
  are those of the most recent min (length qs) windowSize pairs, and Calculate returns
  the rendering (FloatString with 4 decimals) of the sum of price * size divided by the
  sum of size over these pairs: over all of qs when there are at most windowSize, over
  the last windowSize otherwise. With no update at all Calculate returns "0".
\<close>

theorem Calculate_over_recent_window:
  assumes "list_all2 (\<lambda>(priceStr, sizeStr) (price, sz).
             SetString priceStr = Some price \<and> SetString sizeStr = Some sz \<and> 0 < price \<and> 0 < sz)
           ts qs"
  shows "\<exists>v. calls SetString FloatString NewVWAPCalculator
               (map (\<lambda>(priceStr, sizeStr). CallUpdate priceStr sizeStr) ts)
               = Inr (map (\<lambda>t. UpdateReturns None) ts, v) \<and>
             length (drop (length qs - nat windowSize) qs) = min (length qs) (nat windowSize) \<and>
             contents (buffer v) = drop (length qs - nat windowSize) qs \<and>
             totalPV v = sum_pv (drop (length qs - nat windowSize) qs) \<and>
             totalVolume v = sum_volume (drop (length qs - nat windowSize) qs) \<and>
             Calculate FloatString v =
               Inr (if qs = [] then ''0''
                    else FloatString (spec_vwap (drop (length qs - nat windowSize) qs)) 4, v)"
proof -
  let ?w = "drop (length qs - nat windowSize) qs"
  obtain v where c: "calls SetString FloatString NewVWAPCalculator
        (map (\<lambda>(priceStr, sizeStr). CallUpdate priceStr sizeStr) ts)
        = Inr (map (\<lambda>t. UpdateReturns None) ts, v)"
    and w: "contents (buffer v) = window ([] @ qs)" and sums: "sums_ok v"
    using updates_valid[OF assms fresh_invariants] by blast
  have cw: "contents (buffer v) = ?w"
    using w by (simp add: window_def)
  have tv: "totalPV v = sum_pv ?w" "totalVolume v = sum_volume ?w"
    using sums cw by (simp_all add: sums_ok_def)
  have "\<forall>q \<in> set qs. 0 < snd q"
    using assms by (induction rule: list_all2_induct) auto
  then have pos: "\<forall>(p, s) \<in> set qs. 0 < s"
    by auto
  have "Calculate FloatString v = Inr (if qs = [] then ''0'' else FloatString (spec_vwap ?w) 4, v)"
  proof (cases "qs = []")
    case True
    then show ?thesis
      by (simp add: Calculate_returns tv sum_volume_def)
  next
    case False
    then have "0 < length qs" "0 < nat windowSize"
      using windowSize_pos by simp_all
    then have "length qs - nat windowSize < length qs"
      by linarith
    then have "?w \<noteq> []"
      by simp
    moreover have "\<forall>(p, s) \<in> set ?w. 0 < s"
      using pos set_drop_subset[of "length qs - nat windowSize" qs] by blast
    ultimately have "0 < sum_volume ?w"
      by (rule sum_volume_pos)
    then show ?thesis
      using False by (simp add: Calculate_returns tv spec_vwap_def)
  qed
  then show ?thesis
    using c cw tv by simp
qed

theorem Calculate_over_recent_window_witness:
  "\<exists>v. calls sample_SetString sample_FloatString NewVWAPCalculator [CallUpdate ''100'' ''2'']
          = Inr ([UpdateReturns None], v) \<and>
        contents (buffer v) = [(100, 2)] \<and>
        totalPV v = 200 \<and> totalVolume v = 2 \<and>
        Calculate sample_FloatString v = Inr (''100.0000'', v)"
proof -
  have h: "list_all2 (\<lambda>(priceStr, sizeStr) (price, sz).
             sample_SetString priceStr = Some price \<and> sample_SetString sizeStr = Some sz
             \<and> 0 < price \<and> 0 < sz) [(''100'', ''2'')] [(100, 2)]"
    by (simp add: sample_SetString_def)
  show ?thesis
    using Calculate_over_recent_window [OF h, of sample_FloatString]
    by (simp add: sum_pv_def sum_volume_def spec_vwap_def sample_FloatString_def windowSize_def)
qed


text \<open>
  C4. Update returns the error when the parsed price or the parsed size (or both) is
  not positive; whenever Update returns an error the calculator is unchanged, so
  Calculate returns the same before and after; and for a positive price and size Update
  on a calculator whose buffer has the right shape returns nil.
\<close>

theorem Update_rejects_nonpositive:
  "(SetString priceStr = Some price \<and> SetString sizeStr = Some sz \<and> (price \<le> 0 \<or> sz \<le> 0) \<longrightarrow>
      Update SetString v priceStr sizeStr = Inr (Some InvalidTradeData, v)) \<and>
   (Update SetString v priceStr sizeStr = Inr (Some e, v') \<longrightarrow>
      v' = v \<and> Calculate FloatString v' = Calculate FloatString v) \<and>
   (rb_ok (buffer v) \<and> SetString priceStr = Some price \<and> SetString sizeStr = Some sz \<and>
      0 < price \<and> 0 < sz \<longrightarrow>
      (\<exists>v1. Update SetString v priceStr sizeStr = Inr (None, v1)))"
proof (intro conjI impI)
  assume "SetString priceStr = Some price \<and> SetString sizeStr = Some sz \<and> (price \<le> 0 \<or> sz \<le> 0)"
  then show "Update SetString v priceStr sizeStr = Inr (Some InvalidTradeData, v)"
    by (auto simp: Update_def)
next
  assume a: "Update SetString v priceStr sizeStr = Inr (Some e, v')"
  then show "v' = v" by (rule Update_error_unchanged)
  then show "Calculate FloatString v' = Calculate FloatString v" by simp
next
  assume a: "rb_ok (buffer v) \<and> SetString priceStr = Some price \<and> SetString sizeStr = Some sz \<and>
      0 < price \<and> 0 < sz"
  then obtain res rb' where r: "Add (buffer v) price sz = Inr (res, rb')"
    using Add_total[of "buffer v" price sz] by blast
  have "res = (None, None, False) \<or> (\<exists>op os. res = (Some op, Some os, True))"
  proof (cases "count (buffer v) = windowSize")
    case True
    then show ?thesis using contents_Add_full(2)[OF _ True r] a by blast
  next
    case False
    then show ?thesis using contents_Add_notfull(2)[OF _ False r] a by blast
  qed
  then show "\<exists>v1. Update SetString v priceStr sizeStr = Inr (None, v1)"
    using a r by (auto simp: Update_def)
qed

theorem Update_rejects_nonpositive_witness:
  "Update sample_SetString NewVWAPCalculator ''-100'' ''1''
     = Inr (Some InvalidTradeData, NewVWAPCalculator) \<and>
   Update sample_SetString NewVWAPCalculator ''100'' ''-1''
     = Inr (Some InvalidTradeData, NewVWAPCalculator) \<and>
   Update sample_SetString NewVWAPCalculator ''-50'' ''-2''
     = Inr (Some InvalidTradeData, NewVWAPCalculator) \<and>
   Calculate sample_FloatString NewVWAPCalculator = Inr (''0'', NewVWAPCalculator) \<and>
   (\<exists>v1. Update sample_SetString NewVWAPCalculator ''100'' ''2'' = Inr (None, v1))"
proof -
  have ok: "rb_ok (buffer NewVWAPCalculator)"
    by (simp add: NewVWAPCalculator_def rb_ok_def emptyRingBuffer_def windowSize_def)
  have c: "Calculate sample_FloatString NewVWAPCalculator = Inr (''0'', NewVWAPCalculator)"
    by (simp add: Calculate_def NewVWAPCalculator_def)
  have r1: "Update sample_SetString NewVWAPCalculator ''-100'' ''1''
     = Inr (Some InvalidTradeData, NewVWAPCalculator)"
    using Update_rejects_nonpositive [of sample_SetString "''-100''" "- 100" "''1''" 1
        NewVWAPCalculator]
    by (simp add: sample_SetString_def)
  have r2: "Update sample_SetString NewVWAPCalculator ''100'' ''-1''
     = Inr (Some InvalidTradeData, NewVWAPCalculator)"
    using Update_rejects_nonpositive [of sample_SetString "''100''" 100 "''-1''" "- 1"
        NewVWAPCalculator]
    by (simp add: sample_SetString_def)
  have r3: "Update sample_SetString NewVWAPCalculator ''-50'' ''-2''
     = Inr (Some InvalidTradeData, NewVWAPCalculator)"
    using Update_rejects_nonpositive [of sample_SetString "''-50''" "- 50" "''-2''" "- 2"
        NewVWAPCalculator]
    by (simp add: sample_SetString_def)
  have r4: "\<exists>v1. Update sample_SetString NewVWAPCalculator ''100'' ''2'' = Inr (None, v1)"
    using Update_rejects_nonpositive [of sample_SetString "''100''" 100 "''2''" 2
        NewVWAPCalculator] ok
    by (simp add: sample_SetString_def)
  show ?thesis
    using r1 r2 r3 r4 c by simp
qed

text \<open>
  C5. Calculate never panics. When totalVolume is zero it returns "0"; otherwise it
  returns the rendering with 4 decimals of totalPV / totalVolume. totalVolume is zero
  in a fresh calculator and after any sequence of calls none of whose updates is
  accepted, so Calculate returns "0" there.
\<close>

theorem Calculate_zero_volume:
  "Calculate FloatString v =
     Inr (if totalVolume v = 0 then ''0'' else FloatString (totalPV v / totalVolume v) 4, v) \<and>
   totalVolume NewVWAPCalculator = 0 \<and>
   Calculate FloatString NewVWAPCalculator = Inr (''0'', NewVWAPCalculator) \<and>
   (accepted SetString cs = [] \<longrightarrow>
      (\<exists>rs v1. calls SetString FloatString NewVWAPCalculator cs = Inr (rs, v1) \<and>
         totalVolume v1 = 0 \<and> Calculate FloatString v1 = Inr (''0'', v1)))"
proof (intro conjI impI)
  show "Calculate FloatString v =
     Inr (if totalVolume v = 0 then ''0'' else FloatString (totalPV v / totalVolume v) 4, v)"
    by (simp add: Calculate_def Quo_def)
  show "totalVolume NewVWAPCalculator = 0"
    by (simp add: NewVWAPCalculator_def)
  then show "Calculate FloatString NewVWAPCalculator = Inr (''0'', NewVWAPCalculator)"
    by (simp add: Calculate_def)
next
  assume none: "accepted SetString cs = []"
  obtain rs v1 where c: "calls SetString FloatString NewVWAPCalculator cs = Inr (rs, v1)"
    and i: "contents (buffer v1) = window ([] @ accepted SetString cs)" "sums_ok v1"
    using calls_history[OF fresh_invariants] by blast
  have z: "totalVolume v1 = 0"
    using i none by (simp add: sums_ok_def window_def sum_volume_def)
  then have "Calculate FloatString v1 = Inr (''0'', v1)"
    by (simp add: Calculate_def)
  then show "\<exists>rs v1. calls SetString FloatString NewVWAPCalculator cs = Inr (rs, v1) \<and>
         totalVolume v1 = 0 \<and> Calculate FloatString v1 = Inr (''0'', v1)"
    using c z by blast
qed

theorem Calculate_zero_volume_witness:
  "Calculate sample_FloatString NewVWAPCalculator = Inr (''0'', NewVWAPCalculator) \<and>
   (\<exists>rs v1. calls sample_SetString sample_FloatString NewVWAPCalculator
                [CallUpdate ''-100'' ''1'', CallCalculate, CallUpdate ''100'' ''-1''] = Inr (rs, v1) \<and>
      totalVolume v1 = 0 \<and> Calculate sample_FloatString v1 = Inr (''0'', v1))"
proof -
  have h: "accepted sample_SetString
             [CallUpdate ''-100'' ''1'', CallCalculate, CallUpdate ''100'' ''-1''] = []"
    by (simp add: sample_SetString_def)
  show ?thesis
    using Calculate_zero_volume [of sample_FloatString NewVWAPCalculator sample_SetString
        "[CallUpdate ''-100'' ''1'', CallCalculate, CallUpdate ''100'' ''-1'']"] h
    by blast
qed

text \<open>
  C10. Calculate returns the calculator it was given: the buffer with its data, start
  and count, totalPV and totalVolume are unchanged. So any number of consecutive
  Calculate calls return one and the same string and leave the calculator as it was.
\<close>

theorem Calculate_changes_nothing:
  "\<exists>out. Calculate FloatString v = Inr (out, v) \<and>
     (\<forall>n. calls SetString FloatString v (replicate n CallCalculate)
            = Inr (replicate n (CalculateReturns out), v))"
proof -
  let ?out = "if totalVolume v = 0 then ''0'' else FloatString (totalPV v / totalVolume v) 4"
  have c: "Calculate FloatString v = Inr (?out, v)"
    by (rule Calculate_returns)
  have "calls SetString FloatString v (replicate n CallCalculate)
            = Inr (replicate n (CalculateReturns ?out), v)" for n
    by (induction n) (simp_all add: c)
  then show ?thesis using c by blast
qed

section \<open>Properties of processMessage and main\<close>

lemma Update_total:
  assumes ok: "rb_ok (buffer v)"
  shows "\<exists>e v'. Update SetString v priceStr sizeStr = Inr (e, v') \<and> rb_ok (buffer v')"
proof (cases "\<exists>p s. SetString priceStr = Some p \<and> SetString sizeStr = Some s \<and> 0 < p \<and> 0 < s")
  case True
  then obtain p s where ps: "SetString priceStr = Some p" "0 < p"
      "SetString sizeStr = Some s" "0 < s" by blast
  obtain res rb' where r: "Add (buffer v) p s = Inr (res, rb')" and ok': "rb_ok rb'"
    using Add_total[OF ok] by blast
  have "res = (None, None, False) \<or> (\<exists>op os. res = (Some op, Some os, True))"
  proof (cases "count (buffer v) = windowSize")
    case True
    then show ?thesis using contents_Add_full(2)[OF ok True r] by blast
  next
    case False
    then show ?thesis using contents_Add_notfull(2)[OF ok False r] by blast
  qed
  then have "\<exists>v'. Update SetString v priceStr sizeStr = Inr (None, v') \<and> buffer v' = rb'"
    using ps r by (auto simp: Update_def)
  then show ?thesis using ok' by auto
next
  case False
  then show ?thesis
    using Update_invalid[of SetString priceStr sizeStr v] ok by blast
qed

lemma calculators_ok_upd:
  assumes "calculators_ok cs" "rb_ok (buffer v)"
  shows "calculators_ok (cs(k \<mapsto> v))"
  using assms by (auto simp: calculators_ok_def ran_def)

lemma processMessage_total:
  assumes ok: "calculators_ok cs"
  shows "\<exists>evs cs'. processMessage SetString FloatString message cs = Inr (evs, cs')
           \<and> calculators_ok cs'"
proof -
  obtain err trade where u: "Unmarshal message zeroTrade = (err, trade)"
    by (cases "Unmarshal message zeroTrade")
  show ?thesis
  proof (cases "err = None \<and> Type trade = ''match'' \<and> cs (ProductID trade) \<noteq> None")
    case False
    then show ?thesis
      using ok u by (auto simp: processMessage_def split: option.splits)
  next
    case True
    then obtain c where c: "cs (ProductID trade) = Some c" by blast
    then have "rb_ok (buffer c)"
      using ok by (auto simp: calculators_ok_def ran_def)
    then obtain e c1 where up: "Update SetString c (Price trade) (Size trade) = Inr (e, c1)"
      and ok1: "rb_ok (buffer c1)"
      using Update_total by blast
    have okm: "calculators_ok (cs(ProductID trade \<mapsto> c1))"
      using ok ok1 by (rule calculators_ok_upd)
    show ?thesis
      using True u c up okm
      by (cases e) (simp_all add: processMessage_def Calculate_returns)
  qed
qed

lemma process_frames_total:
  assumes "calculators_ok cs"
  shows "\<exists>evs cs'. process_frames SetString FloatString frames cs = Inr (evs, cs')
           \<and> calculators_ok cs'"
  using assms
proof (induction frames arbitrary: cs)
  case Nil
  then show ?case by simp
next
  case (Cons m frames)
  obtain evs c1 where p: "processMessage SetString FloatString m cs = Inr (evs, c1)"
    and ok1: "calculators_ok c1"
    using processMessage_total[OF Cons.prems] by blast
  obtain evs' c2 where q: "process_frames SetString FloatString frames c1 = Inr (evs', c2)"
    and ok2: "calculators_ok c2"
    using Cons.IH[OF ok1] by blast
  show ?case using p q ok2 by simp
qed

lemma handleConnection_total:
  assumes "calculators_ok cs"
  shows "\<exists>evs cs'. handleConnection SetString FloatString sub frames cs = Inr (evs, cs')
           \<and> calculators_ok cs'"
  using assms process_frames_total[OF assms, of SetString FloatString frames]
  by (simp add: handleConnection_def)

lemma calculators_ok_initial: "calculators_ok initial_calculators"
  using fresh_invariants(1) by (auto simp: calculators_ok_def initial_calculators_def ran_def)

lemma main_loop_survives:
  assumes "0 \<le> rc" "longest_failure_run (nat rc) outcomes \<le> nat maxRetries" "calculators_ok cs"
  shows "\<exists>st. main_loop SetString FloatString rc cs n outcomes = Inr st \<and> status st = Looping
           \<and> dials st = n + length outcomes
           \<and> retryCount st = int (failure_run (nat rc) outcomes)"
  using assms
proof (induction outcomes arbitrary: rc cs n)
  case Nil
  then show ?case by simp
next
  case (Cons a outcomes)
  show ?case
  proof (cases a)
    case DialFails
    have n1: "nat (rc + 1) = nat rc + 1" using Cons.prems(1) by simp
    have run: "longest_failure_run (nat (rc + 1)) outcomes \<le> nat maxRetries"
      using Cons.prems(2) by (simp add: DialFails n1)
    have mono: "c \<le> longest_failure_run c os" for c os
      by (induction c os rule: longest_failure_run.induct) auto
    have "nat (rc + 1) \<le> nat maxRetries"
      using run mono[of "nat (rc + 1)" outcomes] by linarith
    then have le: "\<not> rc + 1 > maxRetries"
      using Cons.prems(1) by linarith
    have "0 \<le> rc + 1" using Cons.prems(1) by simp
    from Cons.IH[OF this run Cons.prems(3), of "n + 1"]
    show ?thesis using le by (simp add: DialFails n1)
  next
    case (Connects sub frames)
    obtain evs cs1 where h: "handleConnection SetString FloatString sub frames cs = Inr (evs, cs1)"
      and ok1: "calculators_ok cs1"
      using handleConnection_total[OF Cons.prems(3)] by blast
    have run: "longest_failure_run (nat 0) outcomes \<le> nat maxRetries"
      using Cons.prems(2) by (simp add: Connects)
    from Cons.IH[OF _ run ok1, of "n + 1"]
    show ?thesis using h by (simp add: Connects)
  qed
qed

lemma failure_run_after_success: "failure_run c (outs @ [Connects sub frames]) = 0"
  by (induction c outs rule: failure_run.induct) simp_all


text \<open>
  C7. Let no run of consecutive failed dials in the outcomes be longer than
  maxRetries (in particular, let every maxRetries consecutive dials contain a success).
  Then main never returns: it is still looping after all these dials, none of which
  panics, and its retry counter is the number of failures since the last successful
  dial, so it is zero right after every successful dial.
\<close>

theorem retries_bound_consecutive_failures:
  assumes "longest_failure_run 0 outcomes \<le> nat maxRetries"
  shows "\<exists>st. main SetString FloatString outcomes = Inr st \<and> status st = Looping \<and>
           dials st = length outcomes \<and>
           retryCount st = int (failure_run 0 outcomes) \<and>
           (\<forall>outs sub frames. outcomes = outs @ [Connects sub frames] \<longrightarrow> retryCount st = 0)"
proof -
  have "longest_failure_run (nat 0) outcomes \<le> nat maxRetries"
    using assms by simp
  from main_loop_survives[OF _ this calculators_ok_initial, of SetString FloatString 0]
  obtain st where m: "main SetString FloatString outcomes = Inr st" "status st = Looping"
    "dials st = length outcomes" "retryCount st = int (failure_run 0 outcomes)"
    by (auto simp: main_def)
  have "retryCount st = 0" if "outcomes = outs @ [Connects sub frames]" for outs sub frames
    using m(4) that by (simp add: failure_run_after_success)
  then show ?thesis using m by blast
qed

theorem retries_bound_consecutive_failures_witness:
  "\<exists>st. main sample_SetString sample_FloatString
           [DialFails, DialFails, DialFails, DialFails, DialFails, Connects True [],
            DialFails, DialFails, DialFails, DialFails, DialFails, Connects True []] = Inr st \<and>
         status st = Looping \<and> dials st = 12 \<and> retryCount st = 0"
proof -
  have h: "longest_failure_run 0
           [DialFails, DialFails, DialFails, DialFails, DialFails, Connects True [],
            DialFails, DialFails, DialFails, DialFails, DialFails, Connects True []]
           \<le> nat maxRetries"
    by (simp add: maxRetries_def)
  show ?thesis
    using retries_bound_consecutive_failures [OF h, of sample_SetString sample_FloatString]
    by auto
qed



section \<open>Properties of decoding\<close>

lemma field_for_tags:
  "field_for_key ''type'' = Some FType" "field_for_key ''product_id'' = Some FProductID"
  "field_for_key ''price'' = Some FPrice" "field_for_key ''size'' = Some FSize"
  by (simp_all add: field_for_key_def lower_ascii_def)

lemma decode_strings:
  assumes "\<forall>(k, j) \<in> set ms. k \<in> {''type'', ''product_id'', ''price'', ''size''} \<and> (\<exists>s. j = JString s)"
    and "distinct (map fst ms)"
  shows "\<exists>t'. decode_members ms err t = (err, t') \<and>
           Type t' = (case map_of ms ''type'' of Some (JString s) \<Rightarrow> s | _ \<Rightarrow> Type t) \<and>
           ProductID t' = (case map_of ms ''product_id'' of Some (JString s) \<Rightarrow> s | _ \<Rightarrow> ProductID t) \<and>
           Price t' = (case map_of ms ''price'' of Some (JString s) \<Rightarrow> s | _ \<Rightarrow> Price t) \<and>
           Size t' = (case map_of ms ''size'' of Some (JString s) \<Rightarrow> s | _ \<Rightarrow> Size t)"
  using assms
proof (induction ms arbitrary: t)
  case Nil
  then show ?case by simp
next
  case (Cons m ms)
  obtain k j where m: "m = (k, j)" by (cases m)
  obtain s where j: "j = JString s" using Cons.prems(1) by (auto simp: m)
  have k: "k \<in> {''type'', ''product_id'', ''price'', ''size''}"
    using Cons.prems(1) by (auto simp: m)
  have rest: "\<forall>(k, j) \<in> set ms. k \<in> {''type'', ''product_id'', ''price'', ''size''} \<and> (\<exists>s. j = JString s)"
    "distinct (map fst ms)"
    using Cons.prems by simp_all
  have nk: "map_of ms k = None"
    using Cons.prems(2) by (simp add: m map_of_eq_None_iff)
  obtain f where f: "field_for_key k = Some f"
    using k field_for_tags by auto
  from Cons.IH[OF rest, of "set_field f s t"] obtain t' where
    d: "decode_members ms err (set_field f s t) = (err, t')"
    and t': "Type t' = (case map_of ms ''type'' of Some (JString s') \<Rightarrow> s' | _ \<Rightarrow> Type (set_field f s t))"
      "ProductID t' = (case map_of ms ''product_id'' of Some (JString s') \<Rightarrow> s' | _ \<Rightarrow> ProductID (set_field f s t))"
      "Price t' = (case map_of ms ''price'' of Some (JString s') \<Rightarrow> s' | _ \<Rightarrow> Price (set_field f s t))"
      "Size t' = (case map_of ms ''size'' of Some (JString s') \<Rightarrow> s' | _ \<Rightarrow> Size (set_field f s t))"
    by blast
  have d': "decode_members (m # ms) err t = (err, t')"
    using d f by (cases err) (simp_all add: m j)
  from k show ?case
  proof (elim insertE emptyE)
    assume k: "k = ''type''"
    then have F: "f = FType" using f by (simp add: field_for_tags)
    have "Type t' = (case map_of (m # ms) ''type'' of Some (JString s) \<Rightarrow> s | _ \<Rightarrow> Type t)"
      "ProductID t' = (case map_of (m # ms) ''product_id'' of Some (JString s) \<Rightarrow> s | _ \<Rightarrow> ProductID t)"
      "Price t' = (case map_of (m # ms) ''price'' of Some (JString s) \<Rightarrow> s | _ \<Rightarrow> Price t)"
      "Size t' = (case map_of (m # ms) ''size'' of Some (JString s) \<Rightarrow> s | _ \<Rightarrow> Size t)"
      using t' nk by (simp_all add: F k m j split: option.splits json.splits)
    with d' show ?thesis by blast
  next
    assume k: "k = ''product_id''"
    then have F: "f = FProductID" using f by (simp add: field_for_tags)
    have "Type t' = (case map_of (m # ms) ''type'' of Some (JString s) \<Rightarrow> s | _ \<Rightarrow> Type t)"
      "ProductID t' = (case map_of (m # ms) ''product_id'' of Some (JString s) \<Rightarrow> s | _ \<Rightarrow> ProductID t)"
      "Price t' = (case map_of (m # ms) ''price'' of Some (JString s) \<Rightarrow> s | _ \<Rightarrow> Price t)"
      "Size t' = (case map_of (m # ms) ''size'' of Some (JString s) \<Rightarrow> s | _ \<Rightarrow> Size t)"
      using t' nk by (simp_all add: F k m j split: option.splits json.splits)
    with d' show ?thesis by blast
  next
    assume k: "k = ''price''"
    then have F: "f = FPrice" using f by (simp add: field_for_tags)
    have "Type t' = (case map_of (m # ms) ''type'' of Some (JString s) \<Rightarrow> s | _ \<Rightarrow> Type t)"
      "ProductID t' = (case map_of (m # ms) ''product_id'' of Some (JString s) \<Rightarrow> s | _ \<Rightarrow> ProductID t)"
      "Price t' = (case map_of (m # ms) ''price'' of Some (JString s) \<Rightarrow> s | _ \<Rightarrow> Price t)"
      "Size t' = (case map_of (m # ms) ''size'' of Some (JString s) \<Rightarrow> s | _ \<Rightarrow> Size t)"
      using t' nk by (simp_all add: F k m j split: option.splits json.splits)
    with d' show ?thesis by blast
  next
    assume k: "k = ''size''"
    then have F: "f = FSize" using f by (simp add: field_for_tags)
    have "Type t' = (case map_of (m # ms) ''type'' of Some (JString s) \<Rightarrow> s | _ \<Rightarrow> Type t)"
      "ProductID t' = (case map_of (m # ms) ''product_id'' of Some (JString s) \<Rightarrow> s | _ \<Rightarrow> ProductID t)"
      "Price t' = (case map_of (m # ms) ''price'' of Some (JString s) \<Rightarrow> s | _ \<Rightarrow> Price t)"
      "Size t' = (case map_of (m # ms) ''size'' of Some (JString s) \<Rightarrow> s | _ \<Rightarrow> Size t)"
      using t' nk by (simp_all add: F k m j split: option.splits json.splits)
    with d' show ?thesis by blast
  qed
qed

lemma decode_error_kept:
  "\<exists>t'. decode_members ms (Some e) t = (Some e, t')"
proof (induction ms arbitrary: t)
  case Nil
  then show ?case by simp
next
  case (Cons m ms)
  obtain k j where m: "m = (k, j)" by (cases m)
  show ?case
  proof (cases "field_for_key k")
    case None
    then show ?thesis using Cons.IH by (simp add: m)
  next
    case (Some f)
    obtain e1 t1 where "store_field f j t = (e1, t1)" by (cases "store_field f j t")
    then show ?thesis using Cons.IH[of t1] Some by (simp add: m)
  qed
qed

lemma store_field_error: "fst (store_field f j t) \<in> {None, Some UnmarshalTypeError}"
  by (cases j) simp_all

lemma decode_number_fails:
  assumes "(k, JNumber n) \<in> set ms" "field_for_key k \<noteq> None"
  shows "\<exists>t'. decode_members ms None t = (Some UnmarshalTypeError, t')"
  using assms
proof (induction ms arbitrary: t)
  case Nil
  then show ?case by simp
next
  case (Cons m ms)
  obtain k' j where m: "m = (k', j)" by (cases m)
  show ?case
  proof (cases "field_for_key k'")
    case None
    then have "(k, JNumber n) \<in> set ms"
      using Cons.prems by (auto simp: m)
    then show ?thesis using Cons.IH[OF _ Cons.prems(2)] None by (simp add: m)
  next
    case (Some f)
    obtain e1 t1 where s: "store_field f j t = (e1, t1)" by (cases "store_field f j t")
    then have "e1 \<in> {None, Some UnmarshalTypeError}"
      using store_field_error[of f j t] by simp
    then show ?thesis
    proof (elim insertE emptyE)
      assume e1: "e1 = Some UnmarshalTypeError"
      show ?thesis
        using decode_error_kept[of ms UnmarshalTypeError t1] Some s e1 by (simp add: m)
    next
      assume e1: "e1 = None"
      then have "m \<noteq> (k, JNumber n)"
        using s Some Cons.prems(2) by (auto simp: m)
      then have "(k, JNumber n) \<in> set ms"
        using Cons.prems(1) by simp
      then show ?thesis
        using Cons.IH[OF _ Cons.prems(2), of t1] Some s e1 by (simp add: m)
    qed
  qed
qed

text \<open>
  C8, as the code has it. A frame that is a JSON object with exactly the keys type,
  product_id, price and size, in any order, all four values JSON strings, decodes
  without error into the trade record with these four strings. When moreover type is
  "match", product_id names a calculator of the map, and the library parses price and
  size to positive rationals, processMessage applies Update to that calculator, which
  returns nil, and prints the value Calculate returns. A frame in which a value of one
  of these keys is a JSON number is a decode error: it is logged and nothing is updated.
\<close>

theorem string_frames_are_applied:
  assumes "distinct (map fst ms)"
    and "set ms = {(''type'', JString t), (''product_id'', JString pid),
                   (''price'', JString priceStr), (''size'', JString sizeStr)}"
  shows "Unmarshal (Some (JObject ms)) zeroTrade
           = (None, \<lparr>Type = t, ProductID = pid, Price = priceStr, Size = sizeStr\<rparr>) \<and>
         (t = ''match'' \<and> cs pid = Some c \<and> rb_ok (buffer c) \<and>
          SetString priceStr = Some price \<and> SetString sizeStr = Some sz \<and> 0 < price \<and> 0 < sz \<longrightarrow>
            (\<exists>c1 out. Update SetString c priceStr sizeStr = Inr (None, c1) \<and>
               Calculate FloatString c1 = Inr (out, c1) \<and>
               processMessage SetString FloatString (Some (JObject ms)) cs
                 = Inr ([LogReceivedTrade pid sizeStr priceStr, PrintVWAP pid out],
                        cs(pid \<mapsto> c1)))) \<and>
         (\<forall>k n ms'. (k, JNumber n) \<in> set ms' \<and> field_for_key k \<noteq> None \<longrightarrow>
            processMessage SetString FloatString (Some (JObject ms')) cs
              = Inr ([LogDecodeError UnmarshalTypeError], cs))"
proof (intro conjI impI allI)
  have strs: "\<forall>(k, j) \<in> set ms. k \<in> {''type'', ''product_id'', ''price'', ''size''} \<and> (\<exists>s. j = JString s)"
    unfolding assms(2) by simp
  have look: "map_of ms ''type'' = Some (JString t)" "map_of ms ''product_id'' = Some (JString pid)"
    "map_of ms ''price'' = Some (JString priceStr)" "map_of ms ''size'' = Some (JString sizeStr)"
    using assms by (simp_all add: map_of_is_SomeI)
  obtain t' where d: "decode_members ms None zeroTrade = (None, t')"
    and f: "Type t' = t" "ProductID t' = pid" "Price t' = priceStr" "Size t' = sizeStr"
    using decode_strings[OF strs assms(1), of None zeroTrade] by (auto simp: look)
  have t': "t' = \<lparr>Type = t, ProductID = pid, Price = priceStr, Size = sizeStr\<rparr>"
    using f by (cases t') simp
  show u: "Unmarshal (Some (JObject ms)) zeroTrade
           = (None, \<lparr>Type = t, ProductID = pid, Price = priceStr, Size = sizeStr\<rparr>)"
    using d t' by (simp add: Unmarshal_def)
  {
    assume a: "t = ''match'' \<and> cs pid = Some c \<and> rb_ok (buffer c) \<and>
          SetString priceStr = Some price \<and> SetString sizeStr = Some sz \<and> 0 < price \<and> 0 < sz"
    obtain res rb' where r: "Add (buffer c) price sz = Inr (res, rb')"
      using Add_total[of "buffer c" price sz] a by blast
    have "res = (None, None, False) \<or> (\<exists>op os. res = (Some op, Some os, True))"
    proof (cases "count (buffer c) = windowSize")
      case True
      then show ?thesis using contents_Add_full(2)[OF _ True r] a by blast
    next
      case False
      then show ?thesis using contents_Add_notfull(2)[OF _ False r] a by blast
    qed
    then obtain c1 where up: "Update SetString c priceStr sizeStr = Inr (None, c1)"
      using a r by (auto simp: Update_def)
    obtain out where ca: "Calculate FloatString c1 = Inr (out, c1)"
      using Calculate_returns[of FloatString c1] by blast
    have "processMessage SetString FloatString (Some (JObject ms)) cs
                 = Inr ([LogReceivedTrade pid sizeStr priceStr, PrintVWAP pid out], cs(pid \<mapsto> c1))"
      using a up ca by (simp add: processMessage_def u)
    then show "\<exists>c1 out. Update SetString c priceStr sizeStr = Inr (None, c1) \<and>
               Calculate FloatString c1 = Inr (out, c1) \<and>
               processMessage SetString FloatString (Some (JObject ms)) cs
                 = Inr ([LogReceivedTrade pid sizeStr priceStr, PrintVWAP pid out],
                        cs(pid \<mapsto> c1))"
      using up ca by blast
  }
  fix k n ms'
  assume "(k, JNumber n) \<in> set ms' \<and> field_for_key k \<noteq> None"
  then obtain t2 where "decode_members ms' None zeroTrade = (Some UnmarshalTypeError, t2)"
    using decode_number_fails[of k n ms' zeroTrade] by blast
  then show "processMessage SetString FloatString (Some (JObject ms')) cs
              = Inr ([LogDecodeError UnmarshalTypeError], cs)"
    by (simp add: processMessage_def Unmarshal_def)
qed

theorem string_frames_are_applied_witness:
  "Unmarshal (Some (JObject [(''type'', JString ''match''), (''product_id'', JString ''BTC-USD''),
                             (''price'', JString ''100''), (''size'', JString ''2'')])) zeroTrade
     = (None, \<lparr>Type = ''match'', ProductID = ''BTC-USD'', Price = ''100'', Size = ''2''\<rparr>) \<and>
   (\<exists>c1 out. Update sample_SetString NewVWAPCalculator ''100'' ''2'' = Inr (None, c1) \<and>
      Calculate sample_FloatString c1 = Inr (out, c1) \<and>
      processMessage sample_SetString sample_FloatString
        (Some (JObject [(''type'', JString ''match''), (''product_id'', JString ''BTC-USD''),
                        (''price'', JString ''100''), (''size'', JString ''2'')]))
        initial_calculators
        = Inr ([LogReceivedTrade ''BTC-USD'' ''2'' ''100'', PrintVWAP ''BTC-USD'' out],
               initial_calculators(''BTC-USD'' \<mapsto> c1))) \<and>
   processMessage sample_SetString sample_FloatString
     (Some (JObject [(''type'', JString ''match''), (''product_id'', JString ''BTC-USD''),
                     (''price'', JNumber ''100''), (''size'', JString ''2'')]))
     initial_calculators
     = Inr ([LogDecodeError UnmarshalTypeError], initial_calculators)"
proof -
  let ?ms = "[(''type'', JString ''match''), (''product_id'', JString ''BTC-USD''),
              (''price'', JString ''100''), (''size'', JString ''2'')]"
  have h1: "distinct (map fst ?ms)"
    by simp
  have h2: "set ?ms = {(''type'', JString ''match''), (''product_id'', JString ''BTC-USD''),
                       (''price'', JString ''100''), (''size'', JString ''2'')}"
    by simp
  have h3: "''match'' = ''match'' \<and> initial_calculators ''BTC-USD'' = Some NewVWAPCalculator \<and>
            rb_ok (buffer NewVWAPCalculator) \<and>
            sample_SetString ''100'' = Some 100 \<and> sample_SetString ''2'' = Some 2 \<and>
            (0::rat) < 100 \<and> (0::rat) < 2"
    by (simp add: initial_calculators_def sample_SetString_def NewVWAPCalculator_def rb_ok_def
        emptyRingBuffer_def windowSize_def)
  have h4: "(''price'', JNumber ''100'') \<in> set [(''type'', JString ''match''),
              (''product_id'', JString ''BTC-USD''), (''price'', JNumber ''100''),
              (''size'', JString ''2'')] \<and> field_for_key ''price'' \<noteq> None"
    by (simp add: field_for_key_def lower_ascii_def)
  note inst = string_frames_are_applied [OF h1 h2, of initial_calculators NewVWAPCalculator
      sample_SetString 100 2 sample_FloatString]
  show ?thesis
    using inst h3 h4 by blast
qed

text \<open>
  C8, as the claim has it, fails: a frame of the shape, type "match", a configured
  product, whose price and size are JSON numbers, is a decode error and no calculator
  is updated.
\<close>

theorem number_frame_is_rejected:
  "processMessage sample_SetString sample_FloatString
     (Some (JObject [(''type'', JString ''match''), (''product_id'', JString ''BTC-USD''),
                     (''price'', JNumber ''100''), (''size'', JNumber ''2'')]))
     initial_calculators
   = Inr ([LogDecodeError UnmarshalTypeError], initial_calculators)"
  by (simp add: processMessage_def Unmarshal_def field_for_key_def lower_ascii_def)

end
